theory Spec2Isabelle
  imports Complex_Main
begin

section \<open>Python string formatting\<close>

text \<open>
  The source formats integers into its messages with f-strings. \<open>str_nat\<close> is Python's
  \<open>str\<close> on a non-negative integer, \<open>str_int\<close> on any integer.
\<close>

fun str_nat :: "nat \<Rightarrow> string" where
  "str_nat n =
     (if n < 10 then [char_of (48 + n)]
      else str_nat (n div 10) @ [char_of (48 + n mod 10)])"

declare str_nat.simps [simp del]

definition str_int :: "int \<Rightarrow> string" where
  "str_int i = (if i < 0 then ''-'' @ str_nat (nat (- i)) else str_nat (nat i))"

definition quote :: string where
  "quote = [CHR 0x27]"

definition nl :: string where
  "nl = [CHR 0x0A]"

section \<open>The HTTP fetcher (httpx)\<close>

text \<open>
  \<open>httpx.head\<close> and \<open>httpx.get\<close> are calls into the network. A request is the record
  of the arguments the source passes; the network answers a request with a status code or
  raises \<open>httpx.RequestError\<close>. The answer may depend on everything requested before, so
  the network is a function of the history of earlier requests and of the request, and every
  function that can reach the network takes the history and returns it extended.
\<close>

datatype http_method = HEAD | GET

record http_request =
  req_method :: http_method
  req_url :: string
  req_timeout :: real
  req_follow_redirects :: bool
  req_headers :: "(string \<times> string) list"

datatype request_error = RequestError string

datatype http_outcome = Response int | Raises request_error

type_synonym http_env = "http_request list \<Rightarrow> http_request \<Rightarrow> http_outcome"

definition headers :: "(string \<times> string) list" where
  "headers =
     [(''User-Agent'',
       ''Mozilla/5.0 (Windows NT 10.0; Win64; x64) '' @
       ''AppleWebKit/537.36 (KHTML, like Gecko) '' @
       ''Chrome/120.0.0.0 Safari/537.36'')]"

definition head_request :: "string \<Rightarrow> http_request" where
  "head_request url_str =
     \<lparr>req_method = HEAD, req_url = url_str, req_timeout = 10,
      req_follow_redirects = True, req_headers = headers\<rparr>"

definition get_request :: "string \<Rightarrow> http_request" where
  "get_request url_str =
     \<lparr>req_method = GET, req_url = url_str, req_timeout = 10,
      req_follow_redirects = True, req_headers = headers\<rparr>"

definition httpx_head :: "http_env \<Rightarrow> http_request list \<Rightarrow> string \<Rightarrow> http_outcome \<times> http_request list" where
  "httpx_head env hist url_str = (env hist (head_request url_str), hist @ [head_request url_str])"

definition httpx_get :: "http_env \<Rightarrow> http_request list \<Rightarrow> string \<Rightarrow> http_outcome \<times> http_request list" where
  "httpx_get env hist url_str = (env hist (get_request url_str), hist @ [get_request url_str])"

section \<open>Errors\<close>

text \<open>
  A \<open>ValueError\<close> carries its message and, when raised \<open>from e\<close>, its cause. pydantic
  turns what a validator raises into a line of its \<open>ValidationError\<close>; the other lines
  are pydantic's own: a url that does not parse, a list shorter than \<open>min_length\<close>.
  A failed construction is \<open>Inl\<close> of the lines, a successful one \<open>Inr\<close> of the object.
\<close>

datatype value_error = ValueError (message: string) (cause: "request_error option")

datatype line_error = UrlParsing string | TooShort | Raised value_error

type_synonym validation_error = "line_error list"

section \<open>models.py: Reference\<close>

text \<open>
  A validated \<open>Reference\<close>. Its url is an \<open>AnyUrl\<close>, held here as the string that
  \<open>str\<close> gives for it.
\<close>

record Reference =
  ref_title :: "string option"
  ref_url :: string

text \<open>
  \<open>Reference.validate_url_returns_200\<close>: HEAD, then GET when the status is 400 or more;
  404 and 410 are rejected, then every status from 400 on but 401 and 403;
  \<open>httpx.RequestError\<close> from either request is caught and raised again as a
  \<open>ValueError\<close> with the error's text in the message and the error as its cause.
\<close>

definition returned_status :: "string \<Rightarrow> int \<Rightarrow> value_error" where
  "returned_status url_str status_code =
     ValueError (''URL '' @ quote @ url_str @ quote @ '' returned status '' @ str_int status_code) None"

definition failed_to_reach :: "string \<Rightarrow> request_error \<Rightarrow> value_error" where
  "failed_to_reach url_str e =
     ValueError (''Failed to reach URL '' @ quote @ url_str @ quote @ '': '' @
                 (case e of RequestError m \<Rightarrow> m)) (Some e)"

definition classify_status :: "string \<Rightarrow> string \<Rightarrow> int \<Rightarrow> value_error + string" where
  "classify_status v url_str status_code =
     (if status_code = 404 \<or> status_code = 410 then Inl (returned_status url_str status_code)
      else if status_code \<ge> 400 \<and> \<not> (status_code = 401 \<or> status_code = 403)
        then Inl (returned_status url_str status_code)
      else Inr v)"

definition validate_url_returns_200 ::
  "http_env \<Rightarrow> http_request list \<Rightarrow> string \<Rightarrow> (value_error + string) \<times> http_request list" where
  "validate_url_returns_200 env hist v =
     (let url_str = v in
      case httpx_head env hist url_str of
        (Raises e, hist1) \<Rightarrow> (Inl (failed_to_reach url_str e), hist1)
      | (Response status_code, hist1) \<Rightarrow>
          if status_code \<ge> 400 then
            (case httpx_get env hist1 url_str of
               (Raises e, hist2) \<Rightarrow> (Inl (failed_to_reach url_str e), hist2)
             | (Response status_code2, hist2) \<Rightarrow> (classify_status v url_str status_code2, hist2))
          else (classify_status v url_str status_code, hist1))"


text \<open>
  Constructing a \<open>Reference\<close>: pydantic first parses the url as \<open>AnyUrl\<close> (the
  parameter \<open>any_url\<close>: \<open>None\<close> when the text is not a url, else the string of the parsed
  url) and runs the field validator only on a url that parsed.
\<close>

definition construct_Reference ::
  "(string \<Rightarrow> string option) \<Rightarrow> http_env \<Rightarrow> http_request list \<Rightarrow> string option \<times> string \<Rightarrow>
   (validation_error + Reference) \<times> http_request list" where
  "construct_Reference any_url env hist inp =
     (case any_url (snd inp) of
        None \<Rightarrow> (Inl [UrlParsing (snd inp)], hist)
      | Some v \<Rightarrow>
          (case validate_url_returns_200 env hist v of
             (Inl e, hist1) \<Rightarrow> (Inl [Raised e], hist1)
           | (Inr v1, hist1) \<Rightarrow> (Inr \<lparr>ref_title = fst inp, ref_url = v1\<rparr>, hist1)))"

text \<open>
  A list field: pydantic validates every item, in order, and gathers the lines of all
  that fail, so the requests of the later items are issued also after an item failed.
\<close>

definition gather :: "validation_error + 'a \<Rightarrow> validation_error + 'a list \<Rightarrow> validation_error + 'a list" where
  "gather r rs =
     (case r of
        Inl e \<Rightarrow> (case rs of Inl es \<Rightarrow> Inl (e @ es) | Inr _ \<Rightarrow> Inl e)
      | Inr x \<Rightarrow> (case rs of Inl es \<Rightarrow> Inl es | Inr xs \<Rightarrow> Inr (x # xs)))"

fun construct_References ::
  "(string \<Rightarrow> string option) \<Rightarrow> http_env \<Rightarrow> http_request list \<Rightarrow> (string option \<times> string) list \<Rightarrow>
   (validation_error + Reference list) \<times> http_request list" where
  "construct_References any_url env hist [] = (Inr [], hist)"
| "construct_References any_url env hist (inp # inps) =
     (case construct_Reference any_url env hist inp of
        (r, hist1) \<Rightarrow>
          (case construct_References any_url env hist1 inps of
             (rs, hist2) \<Rightarrow> (gather r rs, hist2)))"

section \<open>models.py: ReferencedParagraph and ReferencedParagraphs\<close>

record ReferencedParagraph =
  rp_text :: string
  rp_references :: "Reference list"

record ReferencedParagraphs =
  rps_paragraphs :: "ReferencedParagraph list"

text \<open>
  Constructing a \<open>ReferencedParagraph\<close> from its text and, when given, the data of its
  references; \<open>references\<close> left out is the default, the empty list.
\<close>

definition construct_ReferencedParagraph ::
  "(string \<Rightarrow> string option) \<Rightarrow> http_env \<Rightarrow> http_request list \<Rightarrow>
   string \<times> (string option \<times> string) list option \<Rightarrow>
   (validation_error + ReferencedParagraph) \<times> http_request list" where
  "construct_ReferencedParagraph any_url env hist inp =
     (case snd inp of
        None \<Rightarrow> (Inr \<lparr>rp_text = fst inp, rp_references = []\<rparr>, hist)
      | Some refs \<Rightarrow>
          (case construct_References any_url env hist refs of
             (Inl es, hist1) \<Rightarrow> (Inl es, hist1)
           | (Inr rs, hist1) \<Rightarrow> (Inr \<lparr>rp_text = fst inp, rp_references = rs\<rparr>, hist1)))"

fun construct_ReferencedParagraph_list ::
  "(string \<Rightarrow> string option) \<Rightarrow> http_env \<Rightarrow> http_request list \<Rightarrow>
   (string \<times> (string option \<times> string) list option) list \<Rightarrow>
   (validation_error + ReferencedParagraph list) \<times> http_request list" where
  "construct_ReferencedParagraph_list any_url env hist [] = (Inr [], hist)"
| "construct_ReferencedParagraph_list any_url env hist (inp # inps) =
     (case construct_ReferencedParagraph any_url env hist inp of
        (p, hist1) \<Rightarrow>
          (case construct_ReferencedParagraph_list any_url env hist1 inps of
             (ps, hist2) \<Rightarrow> (gather p ps, hist2)))"

text \<open>
  \<open>ReferencedParagraphs.ensure_unique_urls_across_paragraphs\<close>. The inner loop over the
  references of one paragraph, with the set \<open>seen\<close> as its state; then the outer loop
  over the paragraphs, with \<open>seen\<close> and the index of \<open>enumerate\<close>.
\<close>

fun rp_check_references :: "string set \<Rightarrow> Reference list \<Rightarrow> value_error + string set" where
  "rp_check_references seen [] = Inr seen"
| "rp_check_references seen (r # rs) =
     (let url_str = ref_url r in
      if url_str \<in> seen then
        Inl (ValueError (''Duplicate reference URL across paragraphs is not allowed: '' @ url_str) None)
      else rp_check_references (insert url_str seen) rs)"

fun rp_check_paragraphs :: "string set \<Rightarrow> nat \<Rightarrow> ReferencedParagraph list \<Rightarrow> value_error + string set" where
  "rp_check_paragraphs seen idx [] = Inr seen"
| "rp_check_paragraphs seen idx (p # ps) =
     (if rp_references p = [] then
        Inl (ValueError (''paragraphs.'' @ str_nat idx @ ''.references must not be empty'') None)
      else
        (case rp_check_references seen (rp_references p) of
           Inl e \<Rightarrow> Inl e
         | Inr seen1 \<Rightarrow> rp_check_paragraphs seen1 (Suc idx) ps))"

definition rp_ensure_unique_urls_across_paragraphs :: "ReferencedParagraphs \<Rightarrow> value_error + ReferencedParagraphs" where
  "rp_ensure_unique_urls_across_paragraphs self =
     (case rp_check_paragraphs {} 0 (rps_paragraphs self) of
        Inl e \<Rightarrow> Inl e
      | Inr _ \<Rightarrow> Inr self)"

text \<open>
  Constructing a \<open>ReferencedParagraphs\<close>: the paragraphs are validated first; the model
  validator (\<open>mode="after"\<close>) runs only when they all passed.
\<close>

definition construct_ReferencedParagraphs ::
  "(string \<Rightarrow> string option) \<Rightarrow> http_env \<Rightarrow> http_request list \<Rightarrow>
   (string \<times> (string option \<times> string) list option) list \<Rightarrow>
   (validation_error + ReferencedParagraphs) \<times> http_request list" where
  "construct_ReferencedParagraphs any_url env hist inps =
     (case construct_ReferencedParagraph_list any_url env hist inps of
        (Inl es, hist1) \<Rightarrow> (Inl es, hist1)
      | (Inr ps, hist1) \<Rightarrow>
          (case rp_ensure_unique_urls_across_paragraphs \<lparr>rps_paragraphs = ps\<rparr> of
             Inl e \<Rightarrow> (Inl [Raised e], hist1)
           | Inr self \<Rightarrow> (Inr self, hist1)))"

section \<open>models.py: the evidence-based classes\<close>

record EvidenceBasedReference =
  ebr_url :: string
  ebr_title :: "string option"
  ebr_supporting_claim :: string

record EvidenceBasedParagraph =
  ebp_text :: string
  ebp_references :: "EvidenceBasedReference list"

record EvidenceBasedResponse =
  ebs_paragraphs :: "EvidenceBasedParagraph list"

text \<open>
  \<open>EvidenceBasedReference\<close> declares \<open>url: str\<close> and no validator: construction stores
  the three fields. The input is the triple (url, title, supporting_claim).
\<close>

definition construct_EvidenceBasedReference ::
  "string \<times> string option \<times> string \<Rightarrow> validation_error + EvidenceBasedReference" where
  "construct_EvidenceBasedReference inp =
     Inr \<lparr>ebr_url = fst inp, ebr_title = fst (snd inp), ebr_supporting_claim = snd (snd inp)\<rparr>"

fun construct_EvidenceBasedReferences ::
  "(string \<times> string option \<times> string) list \<Rightarrow> validation_error + EvidenceBasedReference list" where
  "construct_EvidenceBasedReferences [] = Inr []"
| "construct_EvidenceBasedReferences (inp # inps) =
     gather (construct_EvidenceBasedReference inp) (construct_EvidenceBasedReferences inps)"

text \<open>
  \<open>EvidenceBasedParagraph\<close>: \<open>references\<close> is a required list with \<open>min_length=1\<close>;
  pydantic validates the items and then the length.
\<close>

definition construct_EvidenceBasedParagraph ::
  "string \<times> (string \<times> string option \<times> string) list \<Rightarrow> validation_error + EvidenceBasedParagraph" where
  "construct_EvidenceBasedParagraph inp =
     (case construct_EvidenceBasedReferences (snd inp) of
        Inl es \<Rightarrow> Inl es
      | Inr rs \<Rightarrow>
          if length rs < 1 then Inl [TooShort]
          else Inr \<lparr>ebp_text = fst inp, ebp_references = rs\<rparr>)"

fun construct_EvidenceBasedParagraph_list ::
  "(string \<times> (string \<times> string option \<times> string) list) list \<Rightarrow> validation_error + EvidenceBasedParagraph list" where
  "construct_EvidenceBasedParagraph_list [] = Inr []"
| "construct_EvidenceBasedParagraph_list (inp # inps) =
     gather (construct_EvidenceBasedParagraph inp) (construct_EvidenceBasedParagraph_list inps)"

text \<open>\<open>EvidenceBasedResponse.ensure_unique_urls_across_paragraphs\<close>: the two loops.\<close>

fun eb_check_references :: "string set \<Rightarrow> EvidenceBasedReference list \<Rightarrow> value_error + string set" where
  "eb_check_references seen [] = Inr seen"
| "eb_check_references seen (r # rs) =
     (if ebr_url r \<in> seen then
        Inl (ValueError (''Duplicate reference URL across paragraphs: '' @ ebr_url r) None)
      else eb_check_references (insert (ebr_url r) seen) rs)"

fun eb_check_paragraphs :: "string set \<Rightarrow> EvidenceBasedParagraph list \<Rightarrow> value_error + string set" where
  "eb_check_paragraphs seen [] = Inr seen"
| "eb_check_paragraphs seen (p # ps) =
     (case eb_check_references seen (ebp_references p) of
        Inl e \<Rightarrow> Inl e
      | Inr seen1 \<Rightarrow> eb_check_paragraphs seen1 ps)"

definition eb_ensure_unique_urls_across_paragraphs :: "EvidenceBasedResponse \<Rightarrow> value_error + EvidenceBasedResponse" where
  "eb_ensure_unique_urls_across_paragraphs self =
     (case eb_check_paragraphs {} (ebs_paragraphs self) of
        Inl e \<Rightarrow> Inl e
      | Inr _ \<Rightarrow> Inr self)"

definition construct_EvidenceBasedResponse ::
  "(string \<times> (string \<times> string option \<times> string) list) list \<Rightarrow> validation_error + EvidenceBasedResponse" where
  "construct_EvidenceBasedResponse inps =
     (case construct_EvidenceBasedParagraph_list inps of
        Inl es \<Rightarrow> Inl es
      | Inr ps \<Rightarrow>
          (case eb_ensure_unique_urls_across_paragraphs \<lparr>ebs_paragraphs = ps\<rparr> of
             Inl e \<Rightarrow> Inl [Raised e]
           | Inr self \<Rightarrow> Inr self))"

section \<open>evidence.py\<close>

record SearchResult =
  sr_title :: string
  sr_url :: string
  sr_content :: string
  sr_score :: real

record SourceSummary =
  ss_url :: string
  ss_title :: string
  ss_summary :: string
  ss_key_claims :: "string list"
  ss_relevance_to_topic :: string

record GatheredEvidence =
  query_used :: string
  sources :: "SourceSummary list"

text \<open>
  The two providers. A search request is what \<open>TavilyClient(api_key).search\<close> is called
  with; the answer is a dict whose \<open>results\<close>, when present, is a list of dicts, each
  key of which may be missing. A completion request is what
  \<open>client.chat.completions.create\<close> is called with (the response model is always the
  list of \<open>SourceSummary\<close>); the answer is that list. Either call may raise.
  Everything the functions do to the outside is an event, in order: a line printed, a
  search, a completion. As for HTTP, a provider's answer is a function of the events so
  far and of the request.
\<close>

record search_request =
  sq_api_key :: string
  sq_query :: string
  sq_search_depth :: string
  sq_max_results :: int
  sq_include_raw_content :: bool
  sq_include_domains :: "string list"

record search_hit =
  hit_title :: "string option"
  hit_url :: "string option"
  hit_content :: "string option"
  hit_score :: "real option"

record completion_request =
  cq_model :: string
  cq_system :: string
  cq_user :: string
  cq_temperature :: real
  cq_max_tokens :: int
  cq_max_retries :: int

datatype event = Print string | Search search_request | Completion completion_request

datatype provider_error = ProviderError string

type_synonym search_provider = "event list \<Rightarrow> search_request \<Rightarrow> provider_error + search_hit list option"

type_synonym completion_client = "event list \<Rightarrow> completion_request \<Rightarrow> provider_error + SourceSummary list"

definition is_network_call :: "event \<Rightarrow> bool" where
  "is_network_call ev = (case ev of Print _ \<Rightarrow> False | Search _ \<Rightarrow> True | Completion _ \<Rightarrow> True)"

definition get_or :: "'a option \<Rightarrow> 'a \<Rightarrow> 'a" where
  "get_or v d = (case v of None \<Rightarrow> d | Some x \<Rightarrow> x)"

definition include_domains :: "string list" where
  "include_domains =
     [''ncbi.nlm.nih.gov'', ''pubmed.ncbi.nlm.nih.gov'', ''nhtsa.gov'', ''who.int'', ''gov'',
      ''edu'', ''wikipedia.org'', ''sciencedirect.com'', ''nature.com'', ''bmj.com'',
      ''thelancet.com'']"

definition search_query :: "string \<Rightarrow> string \<Rightarrow> string" where
  "search_query motion side =
     (if side = ''pro'' then ''arguments supporting: '' @ motion @ '' evidence research studies''
      else ''arguments against: '' @ motion @ '' evidence research studies criticism'')"

definition to_SearchResult :: "search_hit \<Rightarrow> SearchResult" where
  "to_SearchResult r =
     \<lparr>sr_title = get_or (hit_title r) [], sr_url = get_or (hit_url r) [],
      sr_content = get_or (hit_content r) [], sr_score = get_or (hit_score r) 0\<rparr>"

definition search_web_for_evidence ::
  "search_provider \<Rightarrow> event list \<Rightarrow> string \<Rightarrow> string \<Rightarrow> string \<Rightarrow> int \<Rightarrow>
   (provider_error + SearchResult list) \<times> event list" where
  "search_web_for_evidence tavily evs motion side tavily_api_key max_results =
     (let query = search_query motion side;
          evs1 = evs @ [Print (''[evidence] Searching: '' @ take 80 query @ ''...'')];
          rq = \<lparr>sq_api_key = tavily_api_key, sq_query = query, sq_search_depth = ''advanced'',
                sq_max_results = max_results, sq_include_raw_content = False,
                sq_include_domains = include_domains\<rparr>
      in case tavily evs1 rq of
           Inl e \<Rightarrow> (Inl e, evs1 @ [Search rq])
         | Inr response \<Rightarrow>
             (let results = map to_SearchResult (get_or response [])
              in (Inr results,
                  evs1 @ [Search rq,
                          Print (''[evidence] Found '' @ str_nat (length results) @ '' sources'')])))"

text \<open>\<open>summarize_sources\<close>: the two texts of the prompt, then the one completion call.\<close>

definition source_text :: "nat \<times> SearchResult \<Rightarrow> string" where
  "source_text ir =
     ''Source '' @ str_nat (fst ir + 1) @ '':'' @ nl @ ''Title: '' @ sr_title (snd ir) @ nl @
     ''URL: '' @ sr_url (snd ir) @ nl @ ''Content: '' @ sr_content (snd ir)"

fun join :: "string \<Rightarrow> string list \<Rightarrow> string" where
  "join sep [] = []"
| "join sep [x] = x"
| "join sep (x # y # ys) = x @ sep @ join sep (y # ys)"

definition sources_text :: "SearchResult list \<Rightarrow> string" where
  "sources_text search_results = join (nl @ nl) (map source_text (enumerate 0 search_results))"

definition system_prompt :: "string \<Rightarrow> string \<Rightarrow> string" where
  "system_prompt motion side =
     ''You are a research assistant analyzing sources for a debate.'' @ nl @
     ''Motion: '' @ motion @ nl @
     ''Side being argued: '' @ side @ nl @
     nl @
     ''For each source provided, extract:'' @ nl @
     ''1. A concise summary of the main points'' @ nl @
     ''2. Key claims or facts that can be used as evidence'' @ nl @
     ''3. How this source relates to the debate topic'' @ nl @
     nl @
     ''Return a JSON object with a '' @ quote @ ''sources'' @ quote @
       '' array containing summaries for each source.'' @ nl @
     ''Each source summary must include: url, title, summary, key_claims (array), relevance_to_topic.'' @ nl @
     ''IMPORTANT: Use the EXACT URLs provided - do not modify or fabricate URLs.''"

definition summarize_sources ::
  "completion_client \<Rightarrow> event list \<Rightarrow> SearchResult list \<Rightarrow> string \<Rightarrow> string \<Rightarrow> string \<Rightarrow>
   (provider_error + SourceSummary list) \<times> event list" where
  "summarize_sources client evs search_results motion side model =
     (if search_results = [] then (Inr [], evs)
      else
        (let evs1 = evs @ [Print (''[evidence] Summarizing '' @ str_nat (length search_results) @ '' sources...'')];
             rq = \<lparr>cq_model = model, cq_system = system_prompt motion side,
                   cq_user = sources_text search_results, cq_temperature = 1 / 10,
                   cq_max_tokens = 2000, cq_max_retries = 2\<rparr>
         in case client evs1 rq of
              Inl e \<Rightarrow> (Inl e, evs1 @ [Completion rq])
            | Inr result_sources \<Rightarrow> (Inr result_sources, evs1 @ [Completion rq])))"

text \<open>
  \<open>gather_evidence\<close>. The credential is \<open>Optional[str]\<close>; \<open>not tavily_api_key\<close> holds
  for \<open>None\<close> and for the empty string. The query it records is built here, apart from
  the one \<open>search_web_for_evidence\<close> builds and sends.
\<close>

definition gather_evidence ::
  "search_provider \<Rightarrow> completion_client \<Rightarrow> event list \<Rightarrow> string \<Rightarrow> string \<Rightarrow> string option \<Rightarrow> string \<Rightarrow>
   (provider_error + GatheredEvidence) \<times> event list" where
  "gather_evidence tavily client evs motion side tavily_api_key model =
     (case tavily_api_key of
        None \<Rightarrow>
          (Inr \<lparr>query_used = [], sources = []\<rparr>,
           evs @ [Print ''[evidence] No TAVILY_API_KEY set - skipping web search''])
      | Some key \<Rightarrow>
          if key = [] then
            (Inr \<lparr>query_used = [], sources = []\<rparr>,
             evs @ [Print ''[evidence] No TAVILY_API_KEY set - skipping web search''])
          else
            (let query = (if side = ''pro'' then ''arguments supporting: '' @ motion
                          else ''arguments against: '' @ motion)
             in case search_web_for_evidence tavily evs motion side key 8 of
                  (Inl e, evs1) \<Rightarrow> (Inl e, evs1)
                | (Inr search_results, evs1) \<Rightarrow>
                    if search_results = [] then
                      (Inr \<lparr>query_used = query, sources = []\<rparr>,
                       evs1 @ [Print ''[evidence] No search results found''])
                    else
                      (case summarize_sources client evs1 search_results motion side model of
                         (Inl e, evs2) \<Rightarrow> (Inl e, evs2)
                       | (Inr summaries, evs2) \<Rightarrow>
                           (Inr \<lparr>query_used = query, sources = summaries\<rparr>,
                            evs2 @ [Print (''[evidence] Gathered '' @ str_nat (length summaries) @
                                           '' verified sources'')]))))"

section \<open>Notions the statements use\<close>

text \<open>
  The url texts an input to \<open>ReferencedParagraphs\<close> cites, over all its paragraphs in
  order, and the urls a validated list of paragraphs holds; the same for the
  evidence-based classes.
\<close>

definition rp_input_urls :: "(string \<times> (string option \<times> string) list option) list \<Rightarrow> string list" where
  "rp_input_urls inps = concat (map (\<lambda>inp. map snd (get_or (snd inp) [])) inps)"

definition rp_urls :: "ReferencedParagraph list \<Rightarrow> string list" where
  "rp_urls ps = concat (map (\<lambda>p. map ref_url (rp_references p)) ps)"

definition eb_input_urls :: "(string \<times> (string \<times> string option \<times> string) list) list \<Rightarrow> string list" where
  "eb_input_urls inps = concat (map (\<lambda>inp. map fst (snd inp)) inps)"

definition eb_urls :: "EvidenceBasedParagraph list \<Rightarrow> string list" where
  "eb_urls ps = concat (map (\<lambda>p. map ebr_url (ebp_references p)) ps)"

definition EvidenceBasedReference_of :: "string \<times> string option \<times> string \<Rightarrow> EvidenceBasedReference" where
  "EvidenceBasedReference_of inp =
     \<lparr>ebr_url = fst inp, ebr_title = fst (snd inp), ebr_supporting_claim = snd (snd inp)\<rparr>"

text \<open>
  Environments for the concrete instances: a network that answers every request alike,
  a network on which one url answers 500 and every other url 200, a search provider that
  finds nothing and a completion client that returns no summaries.
\<close>

definition always :: "http_outcome \<Rightarrow> http_env" where
  "always out hist rq = out"

definition down_for :: "string \<Rightarrow> http_env" where
  "down_for u hist rq = (if req_url rq = u then Response 500 else Response 200)"

definition no_results :: search_provider where
  "no_results evs rq = Inr (Some [])"

definition no_summaries :: completion_client where
  "no_summaries evs rq = Inr []"

section \<open>The Reference Validator\<close>



section \<open>The uniqueness loops\<close>

lemma gather_Inr: "(gather r rs = Inr ys) = (\<exists>x xs. r = Inr x \<and> rs = Inr xs \<and> ys = x # xs)"
  by (auto simp: gather_def split: sum.splits)

lemma rp_check_references_Inr:
  "(rp_check_references seen rs = Inr seen1) =
   (distinct (map ref_url rs) \<and> set (map ref_url rs) \<inter> seen = {} \<and> seen1 = seen \<union> set (map ref_url rs))"
  by (induction rs arbitrary: seen) (auto simp: Let_def)

lemma rp_urls_Cons: "rp_urls (p # ps) = map ref_url (rp_references p) @ rp_urls ps"
  by (simp add: rp_urls_def)

lemma rp_check_paragraphs_Inr:
  "(rp_check_paragraphs seen idx ps = Inr seen1) =
   (distinct (rp_urls ps) \<and> set (rp_urls ps) \<inter> seen = {} \<and> list_all (\<lambda>p. rp_references p \<noteq> []) ps \<and>
    seen1 = seen \<union> set (rp_urls ps))"
proof (induction ps arbitrary: seen idx)
  case Nil
  then show ?case by (auto simp: rp_urls_def)
next
  case (Cons p ps)
  show ?case
  proof (cases "rp_references p = []")
    case True
    then show ?thesis by simp
  next
    case False
    show ?thesis
    proof (cases "rp_check_references seen (rp_references p)")
      case (Inl e)
      then have "\<not> (distinct (map ref_url (rp_references p)) \<and> set (map ref_url (rp_references p)) \<inter> seen = {})"
        using rp_check_references_Inr [of seen "rp_references p"] by auto
      with Inl False show ?thesis by (auto simp: rp_urls_Cons)
    next
      case (Inr s1)
      then have s1: "distinct (map ref_url (rp_references p))" "set (map ref_url (rp_references p)) \<inter> seen = {}"
        "s1 = seen \<union> set (map ref_url (rp_references p))"
        using rp_check_references_Inr [of seen "rp_references p" s1] by auto
      have "rp_check_paragraphs seen idx (p # ps) = rp_check_paragraphs s1 (Suc idx) ps"
        using False Inr by simp
      also have "(\<dots> = Inr seen1) = (distinct (rp_urls ps) \<and> set (rp_urls ps) \<inter> s1 = {} \<and>
          list_all (\<lambda>p. rp_references p \<noteq> []) ps \<and> seen1 = s1 \<union> set (rp_urls ps))"
        by (rule Cons.IH)
      also have "\<dots> = (distinct (rp_urls (p # ps)) \<and> set (rp_urls (p # ps)) \<inter> seen = {} \<and>
          list_all (\<lambda>p. rp_references p \<noteq> []) (p # ps) \<and> seen1 = seen \<union> set (rp_urls (p # ps)))"
        using s1 False unfolding rp_urls_Cons by auto
      finally show ?thesis .
    qed
  qed
qed

lemma eb_check_references_Inr:
  "(eb_check_references seen rs = Inr seen1) =
   (distinct (map ebr_url rs) \<and> set (map ebr_url rs) \<inter> seen = {} \<and> seen1 = seen \<union> set (map ebr_url rs))"
  by (induction rs arbitrary: seen) auto

lemma eb_urls_Cons: "eb_urls (p # ps) = map ebr_url (ebp_references p) @ eb_urls ps"
  by (simp add: eb_urls_def)

lemma eb_check_paragraphs_Inr:
  "(eb_check_paragraphs seen ps = Inr seen1) =
   (distinct (eb_urls ps) \<and> set (eb_urls ps) \<inter> seen = {} \<and> seen1 = seen \<union> set (eb_urls ps))"
proof (induction ps arbitrary: seen)
  case Nil
  then show ?case by (auto simp: eb_urls_def)
next
  case (Cons p ps)
  show ?case
  proof (cases "eb_check_references seen (ebp_references p)")
    case (Inl e)
    then have "\<not> (distinct (map ebr_url (ebp_references p)) \<and> set (map ebr_url (ebp_references p)) \<inter> seen = {})"
      using eb_check_references_Inr [of seen "ebp_references p"] by auto
    with Inl show ?thesis by (auto simp: eb_urls_Cons)
  next
    case (Inr s1)
    then have s1: "distinct (map ebr_url (ebp_references p))" "set (map ebr_url (ebp_references p)) \<inter> seen = {}"
      "s1 = seen \<union> set (map ebr_url (ebp_references p))"
      using eb_check_references_Inr [of seen "ebp_references p" s1] by auto
    have "eb_check_paragraphs seen (p # ps) = eb_check_paragraphs s1 ps"
      using Inr by simp
    also have "(\<dots> = Inr seen1) = (distinct (eb_urls ps) \<and> set (eb_urls ps) \<inter> s1 = {} \<and>
        seen1 = s1 \<union> set (eb_urls ps))"
      by (rule Cons.IH)
    also have "\<dots> = (distinct (eb_urls (p # ps)) \<and> set (eb_urls (p # ps)) \<inter> seen = {} \<and>
        seen1 = seen \<union> set (eb_urls (p # ps)))"
      using s1 unfolding eb_urls_Cons by auto
    finally show ?thesis .
  qed
qed

section \<open>What a successful construction implies\<close>

lemma validate_url_returns_200_Inr:
  "fst (validate_url_returns_200 env hist v) = Inr x \<Longrightarrow> x = v"
  by (auto simp: validate_url_returns_200_def httpx_head_def httpx_get_def classify_status_def
      split: http_outcome.splits if_splits)

lemma construct_Reference_Inr:
  assumes "fst (construct_Reference any_url env hist inp) = Inr r"
  shows "any_url (snd inp) = Some (ref_url r) \<and>
         fst (validate_url_returns_200 env hist (ref_url r)) = Inr (ref_url r)"
proof (cases "any_url (snd inp)")
  case None
  with assms show ?thesis by (simp add: construct_Reference_def)
next
  case (Some v)
  obtain res h1 where v: "validate_url_returns_200 env hist v = (res, h1)"
    by (cases "validate_url_returns_200 env hist v")
  with assms Some obtain x where x: "res = Inr x" "r = \<lparr>ref_title = fst inp, ref_url = x\<rparr>"
    by (cases res) (auto simp: construct_Reference_def)
  with v have "x = v" using validate_url_returns_200_Inr [of env hist v x] by simp
  with x v Some show ?thesis by simp
qed

lemma construct_References_Inr:
  "fst (construct_References any_url env hist inps) = Inr rs \<Longrightarrow>
   map (\<lambda>r. Some (ref_url r)) rs = map (\<lambda>inp. any_url (snd inp)) inps \<and>
   list_all (\<lambda>r. \<exists>h. fst (validate_url_returns_200 env h (ref_url r)) = Inr (ref_url r)) rs"
proof (induction inps arbitrary: hist rs)
  case Nil
  then show ?case by simp
next
  case (Cons inp inps)
  obtain r h1 where r: "construct_Reference any_url env hist inp = (r, h1)"
    by (cases "construct_Reference any_url env hist inp")
  obtain rs1 h2 where rs1: "construct_References any_url env h1 inps = (rs1, h2)"
    by (cases "construct_References any_url env h1 inps")
  from Cons.prems r rs1 have "gather r rs1 = Inr rs" by simp
  then obtain x xs where x: "r = Inr x" "rs1 = Inr xs" "rs = x # xs"
    by (auto simp: gather_Inr)
  from r x have "fst (construct_Reference any_url env hist inp) = Inr x" by simp
  from construct_Reference_Inr [OF this]
  have a: "any_url (snd inp) = Some (ref_url x)"
    "fst (validate_url_returns_200 env hist (ref_url x)) = Inr (ref_url x)" by auto
  from rs1 x have "fst (construct_References any_url env h1 inps) = Inr xs" by simp
  from Cons.IH [OF this] a x show ?case by auto
qed

lemma construct_References_bad:
  "inp \<in> set inps \<Longrightarrow> \<forall>h. isl (fst (construct_Reference any_url env h inp)) \<Longrightarrow>
   isl (fst (construct_References any_url env hist inps))"
proof (induction inps arbitrary: hist)
  case Nil
  then show ?case by simp
next
  case (Cons a inps)
  obtain r h1 where r: "construct_Reference any_url env hist a = (r, h1)"
    by (cases "construct_Reference any_url env hist a")
  obtain rs1 h2 where rs1: "construct_References any_url env h1 inps = (rs1, h2)"
    by (cases "construct_References any_url env h1 inps")
  show ?case
  proof (cases "inp = a")
    case True
    with Cons.prems r have "isl r" by (metis fst_conv)
    with r rs1 show ?thesis by (auto simp: gather_def split: sum.splits)
  next
    case False
    with Cons.prems have "inp \<in> set inps" by simp
    from Cons.IH [OF this Cons.prems(2), of h1] rs1 have "isl rs1" by simp
    with r rs1 show ?thesis by (auto simp: gather_def split: sum.splits)
  qed
qed

lemma construct_ReferencedParagraph_Inr:
  assumes "fst (construct_ReferencedParagraph any_url env hist inp) = Inr p"
  shows "map (\<lambda>r. Some (ref_url r)) (rp_references p) = map (\<lambda>i. any_url (snd i)) (get_or (snd inp) []) \<and>
         list_all (\<lambda>r. \<exists>h. fst (validate_url_returns_200 env h (ref_url r)) = Inr (ref_url r)) (rp_references p)"
proof (cases "snd inp")
  case None
  with assms show ?thesis by (auto simp: construct_ReferencedParagraph_def get_or_def)
next
  case (Some refs)
  obtain res h1 where c: "construct_References any_url env hist refs = (res, h1)"
    by (cases "construct_References any_url env hist refs")
  with assms Some obtain rs where rs: "res = Inr rs" "p = \<lparr>rp_text = fst inp, rp_references = rs\<rparr>"
    by (cases res) (auto simp: construct_ReferencedParagraph_def)
  from c rs have "fst (construct_References any_url env hist refs) = Inr rs" by simp
  from construct_References_Inr [OF this] rs Some show ?thesis by (simp add: get_or_def)
qed

lemma construct_ReferencedParagraph_list_Inr:
  "fst (construct_ReferencedParagraph_list any_url env hist inps) = Inr ps \<Longrightarrow>
   map Some (rp_urls ps) = map any_url (rp_input_urls inps) \<and>
   map (\<lambda>p. rp_references p = []) ps = map (\<lambda>inp. get_or (snd inp) [] = []) inps \<and>
   list_all (\<lambda>u. \<exists>h. fst (validate_url_returns_200 env h u) = Inr u) (rp_urls ps)"
proof (induction inps arbitrary: hist ps)
  case Nil
  then show ?case by (simp add: rp_urls_def rp_input_urls_def)
next
  case (Cons inp inps)
  obtain r h1 where r: "construct_ReferencedParagraph any_url env hist inp = (r, h1)"
    by (cases "construct_ReferencedParagraph any_url env hist inp")
  obtain rs1 h2 where rs1: "construct_ReferencedParagraph_list any_url env h1 inps = (rs1, h2)"
    by (cases "construct_ReferencedParagraph_list any_url env h1 inps")
  from Cons.prems r rs1 have "gather r rs1 = Inr ps" by simp
  then obtain x xs where x: "r = Inr x" "rs1 = Inr xs" "ps = x # xs"
    by (auto simp: gather_Inr)
  from r x have "fst (construct_ReferencedParagraph any_url env hist inp) = Inr x" by simp
  from construct_ReferencedParagraph_Inr [OF this]
  have a: "map (\<lambda>r. Some (ref_url r)) (rp_references x) = map (\<lambda>i. any_url (snd i)) (get_or (snd inp) [])"
    "list_all (\<lambda>r. \<exists>h. fst (validate_url_returns_200 env h (ref_url r)) = Inr (ref_url r)) (rp_references x)"
    by auto
  from a(1) have e: "(rp_references x = []) = (get_or (snd inp) [] = [])"
    by (metis map_is_Nil_conv)
  from rs1 x have "fst (construct_ReferencedParagraph_list any_url env h1 inps) = Inr xs" by simp
  from Cons.IH [OF this] have ih: "map Some (rp_urls xs) = map any_url (rp_input_urls inps)"
    "map (\<lambda>p. rp_references p = []) xs = map (\<lambda>inp. get_or (snd inp) [] = []) inps"
    "list_all (\<lambda>u. \<exists>h. fst (validate_url_returns_200 env h u) = Inr u) (rp_urls xs)" by auto
  have u: "rp_input_urls (inp # inps) = map snd (get_or (snd inp) []) @ rp_input_urls inps"
    by (simp add: rp_input_urls_def)
  from a(1) have a1: "map Some (map ref_url (rp_references x)) = map any_url (map snd (get_or (snd inp) []))"
    by (simp add: comp_def)
  from a(2) have a2: "list_all (\<lambda>u. \<exists>h. fst (validate_url_returns_200 env h u) = Inr u) (map ref_url (rp_references x))"
    by (simp add: list_all_iff)
  show ?case unfolding x rp_urls_Cons u using a1 a2 e ih by simp
qed

lemma construct_ReferencedParagraph_list_bad:
  "inp \<in> set inps \<Longrightarrow> \<forall>h. isl (fst (construct_ReferencedParagraph any_url env h inp)) \<Longrightarrow>
   isl (fst (construct_ReferencedParagraph_list any_url env hist inps))"
proof (induction inps arbitrary: hist)
  case Nil
  then show ?case by simp
next
  case (Cons a inps)
  obtain r h1 where r: "construct_ReferencedParagraph any_url env hist a = (r, h1)"
    by (cases "construct_ReferencedParagraph any_url env hist a")
  obtain rs1 h2 where rs1: "construct_ReferencedParagraph_list any_url env h1 inps = (rs1, h2)"
    by (cases "construct_ReferencedParagraph_list any_url env h1 inps")
  show ?case
  proof (cases "inp = a")
    case True
    with Cons.prems r have "isl r" by (metis fst_conv)
    with r rs1 show ?thesis by (auto simp: gather_def split: sum.splits)
  next
    case False
    with Cons.prems have "inp \<in> set inps" by simp
    from Cons.IH [OF this Cons.prems(2), of h1] rs1 have "isl rs1" by simp
    with r rs1 show ?thesis by (auto simp: gather_def split: sum.splits)
  qed
qed

lemma construct_ReferencedParagraphs_Inr:
  assumes "fst (construct_ReferencedParagraphs any_url env hist inps) = Inr r"
  shows "distinct (rp_urls (rps_paragraphs r)) \<and>
         list_all (\<lambda>p. rp_references p \<noteq> []) (rps_paragraphs r) \<and>
         map Some (rp_urls (rps_paragraphs r)) = map any_url (rp_input_urls inps) \<and>
         map (\<lambda>p. rp_references p = []) (rps_paragraphs r) = map (\<lambda>inp. get_or (snd inp) [] = []) inps \<and>
         list_all (\<lambda>u. \<exists>h. fst (validate_url_returns_200 env h u) = Inr u) (rp_urls (rps_paragraphs r))"
proof -
  obtain res h1 where c: "construct_ReferencedParagraph_list any_url env hist inps = (res, h1)"
    by (cases "construct_ReferencedParagraph_list any_url env hist inps")
  with assms obtain ps where ps: "res = Inr ps"
    by (cases res) (auto simp: construct_ReferencedParagraphs_def)
  with assms c have "\<not> isl (rp_ensure_unique_urls_across_paragraphs \<lparr>rps_paragraphs = ps\<rparr>)" and r: "r = \<lparr>rps_paragraphs = ps\<rparr>"
    by (auto simp: construct_ReferencedParagraphs_def rp_ensure_unique_urls_across_paragraphs_def split: sum.splits)
  then obtain s where "rp_check_paragraphs {} 0 ps = Inr s"
    by (auto simp: rp_ensure_unique_urls_across_paragraphs_def split: sum.splits)
  then have d: "distinct (rp_urls ps)" "list_all (\<lambda>p. rp_references p \<noteq> []) ps"
    by (simp_all add: rp_check_paragraphs_Inr)
  from c ps have "fst (construct_ReferencedParagraph_list any_url env hist inps) = Inr ps" by simp
  from construct_ReferencedParagraph_list_Inr [OF this] d r show ?thesis by simp
qed

lemma construct_ReferencedParagraphs_duplicate:
  assumes "\<not> distinct (rp_input_urls inps)"
  shows "isl (fst (construct_ReferencedParagraphs any_url env hist inps))"
proof (rule ccontr)
  assume "\<not> isl (fst (construct_ReferencedParagraphs any_url env hist inps))"
  then obtain r where "fst (construct_ReferencedParagraphs any_url env hist inps) = Inr r"
    by (cases "fst (construct_ReferencedParagraphs any_url env hist inps)") auto
  from construct_ReferencedParagraphs_Inr [OF this]
  have d: "distinct (rp_urls (rps_paragraphs r))"
    and m: "map Some (rp_urls (rps_paragraphs r)) = map any_url (rp_input_urls inps)" by auto
  from d have "distinct (map Some (rp_urls (rps_paragraphs r)))"
    by (simp add: distinct_map)
  with m have "distinct (map any_url (rp_input_urls inps))" by simp
  then have "distinct (rp_input_urls inps)" by (rule distinct_map [THEN iffD1, THEN conjunct1])
  with assms show False by simp
qed

lemma construct_ReferencedParagraphs_empty:
  assumes "inp \<in> set inps" "get_or (snd inp) [] = []"
  shows "isl (fst (construct_ReferencedParagraphs any_url env hist inps))"
proof (rule ccontr)
  assume "\<not> isl (fst (construct_ReferencedParagraphs any_url env hist inps))"
  then obtain r where "fst (construct_ReferencedParagraphs any_url env hist inps) = Inr r"
    by (cases "fst (construct_ReferencedParagraphs any_url env hist inps)") auto
  from construct_ReferencedParagraphs_Inr [OF this]
  have d: "list_all (\<lambda>p. rp_references p \<noteq> []) (rps_paragraphs r)"
    and m: "map (\<lambda>p. rp_references p = []) (rps_paragraphs r) = map (\<lambda>inp. get_or (snd inp) [] = []) inps" by auto
  from d have "True \<notin> set (map (\<lambda>p. rp_references p = []) (rps_paragraphs r))"
    by (auto simp: list_all_iff)
  with m have "True \<notin> set (map (\<lambda>inp. get_or (snd inp) [] = []) inps)" by simp
  with assms show False by force
qed

lemma construct_ReferencedParagraph_bad:
  assumes "snd inp = Some refs" "ref \<in> set refs" "\<forall>h. isl (fst (construct_Reference any_url env h ref))"
  shows "isl (fst (construct_ReferencedParagraph any_url env hist inp))"
proof -
  have "isl (fst (construct_References any_url env hist refs))"
    using construct_References_bad [OF assms(2,3)] .
  with assms(1) show ?thesis
    by (cases "construct_References any_url env hist refs")
       (auto simp: construct_ReferencedParagraph_def split: sum.splits)
qed

lemma construct_ReferencedParagraphs_bad:
  assumes "inp \<in> set inps" "snd inp = Some refs" "ref \<in> set refs"
    "\<forall>h. isl (fst (construct_Reference any_url env h ref))"
  shows "isl (fst (construct_ReferencedParagraphs any_url env hist inps))"
proof -
  have "\<forall>h. isl (fst (construct_ReferencedParagraph any_url env h inp))"
    using construct_ReferencedParagraph_bad [OF assms(2,3,4)] by simp
  from construct_ReferencedParagraph_list_bad [OF assms(1) this]
  have "isl (fst (construct_ReferencedParagraph_list any_url env hist inps))" .
  then show ?thesis
    by (cases "construct_ReferencedParagraph_list any_url env hist inps")
       (auto simp: construct_ReferencedParagraphs_def split: sum.splits)
qed

lemma construct_Reference_unparsable:
  "any_url (snd ref) = None \<Longrightarrow> isl (fst (construct_Reference any_url env h ref))"
  by (simp add: construct_Reference_def)

lemma construct_Reference_unreachable:
  "any_url (snd ref) = Some v \<Longrightarrow> isl (fst (validate_url_returns_200 env h v)) \<Longrightarrow>
   isl (fst (construct_Reference any_url env h ref))"
  by (cases "validate_url_returns_200 env h v") (auto simp: construct_Reference_def split: sum.splits)

lemma construct_EvidenceBasedReferences_eq:
  "construct_EvidenceBasedReferences inps = Inr (map EvidenceBasedReference_of inps)"
  by (induction inps) (simp_all add: gather_def construct_EvidenceBasedReference_def EvidenceBasedReference_of_def)

lemma construct_EvidenceBasedParagraph_eq:
  "construct_EvidenceBasedParagraph inp =
   (if snd inp = [] then Inl [TooShort]
    else Inr \<lparr>ebp_text = fst inp, ebp_references = map EvidenceBasedReference_of (snd inp)\<rparr>)"
  by (simp add: construct_EvidenceBasedParagraph_def construct_EvidenceBasedReferences_eq)

lemma construct_EvidenceBasedParagraph_list_Inr:
  "(construct_EvidenceBasedParagraph_list inps = Inr ps) =
   (list_all (\<lambda>inp. snd inp \<noteq> []) inps \<and>
    ps = map (\<lambda>inp. \<lparr>ebp_text = fst inp, ebp_references = map EvidenceBasedReference_of (snd inp)\<rparr>) inps)"
  by (induction inps arbitrary: ps) (auto simp: gather_Inr construct_EvidenceBasedParagraph_eq)

lemma eb_urls_of_input:
  "eb_urls (map (\<lambda>inp. \<lparr>ebp_text = fst inp, ebp_references = map EvidenceBasedReference_of (snd inp)\<rparr>) inps)
   = eb_input_urls inps"
  by (induction inps) (simp_all add: eb_urls_def eb_input_urls_def EvidenceBasedReference_of_def comp_def)

lemma construct_EvidenceBasedResponse_Inr:
  "(construct_EvidenceBasedResponse inps = Inr r) =
   (list_all (\<lambda>inp. snd inp \<noteq> []) inps \<and> distinct (eb_input_urls inps) \<and>
    r = \<lparr>ebs_paragraphs =
          map (\<lambda>inp. \<lparr>ebp_text = fst inp, ebp_references = map EvidenceBasedReference_of (snd inp)\<rparr>) inps\<rparr>)"
proof (cases "construct_EvidenceBasedParagraph_list inps")
  case (Inl es)
  then have "\<not> list_all (\<lambda>inp. snd inp \<noteq> []) inps"
    using construct_EvidenceBasedParagraph_list_Inr [of inps] by auto
  with Inl show ?thesis by (simp add: construct_EvidenceBasedResponse_def)
next
  case (Inr ps)
  then have ps: "list_all (\<lambda>inp. snd inp \<noteq> []) inps"
    "ps = map (\<lambda>inp. \<lparr>ebp_text = fst inp, ebp_references = map EvidenceBasedReference_of (snd inp)\<rparr>) inps"
    by (simp_all add: construct_EvidenceBasedParagraph_list_Inr)
  have u: "eb_urls ps = eb_input_urls inps" unfolding ps(2) by (rule eb_urls_of_input)
  show ?thesis
  proof (cases "eb_check_paragraphs {} ps")
    case (Inl e)
    then have "\<not> distinct (eb_urls ps)"
      using eb_check_paragraphs_Inr [of "{}" ps] by auto
    with Inl Inr u show ?thesis
      by (simp add: construct_EvidenceBasedResponse_def eb_ensure_unique_urls_across_paragraphs_def)
  next
    case (Inr s)
    then have "distinct (eb_urls ps)" by (simp add: eb_check_paragraphs_Inr)
    with Inr \<open>construct_EvidenceBasedParagraph_list inps = Inr ps\<close> u ps show ?thesis
      by (auto simp: construct_EvidenceBasedResponse_def eb_ensure_unique_urls_across_paragraphs_def)
  qed
qed

lemma rp_input_urls_elem:
  assumes "u \<in> set (rp_input_urls inps)"
  obtains inp refs ref where "inp \<in> set inps" "snd inp = Some refs" "ref \<in> set refs" "snd ref = u"
proof -
  from assms obtain inp where i: "inp \<in> set inps" "u \<in> snd ` set (get_or (snd inp) [])"
    by (auto simp: rp_input_urls_def)
  then obtain refs where refs: "snd inp = Some refs"
    by (cases "snd inp") (auto simp: get_or_def)
  with i obtain ref where "ref \<in> set refs" "snd ref = u"
    by (auto simp: get_or_def)
  with i(1) refs show thesis by (rule that)
qed

lemma str_nat_0: "str_nat 0 = ''0''"
  by code_simp

lemmas eval_defs = construct_ReferencedParagraphs_def construct_ReferencedParagraph_def
  construct_Reference_def validate_url_returns_200_def httpx_head_def httpx_get_def
  classify_status_def always_def gather_def rp_ensure_unique_urls_across_paragraphs_def
  rp_urls_def rp_input_urls_def get_or_def head_request_def get_request_def
  construct_EvidenceBasedResponse_def construct_EvidenceBasedParagraph_def
  construct_EvidenceBasedReference_def eb_ensure_unique_urls_across_paragraphs_def
  eb_urls_def eb_input_urls_def down_for_def Let_def

section \<open>Integrity of the reference-bearing responses\<close>

text \<open>
  C2. A \<open>ReferencedParagraphs\<close> or an \<open>EvidenceBasedResponse\<close> that was constructed holds
  no url twice among the references of all its paragraphs, and constructing either from
  an input that cites the same url twice anywhere fails with a validation error.
\<close>

theorem reference_urls_unique:
  "(fst (construct_ReferencedParagraphs any_url env hist inps) = Inr r \<longrightarrow>
      distinct (rp_urls (rps_paragraphs r))) \<and>
   (\<not> distinct (rp_input_urls inps) \<longrightarrow>
      isl (fst (construct_ReferencedParagraphs any_url env hist inps))) \<and>
   (construct_EvidenceBasedResponse einps = Inr er \<longrightarrow> distinct (eb_urls (ebs_paragraphs er))) \<and>
   (\<not> distinct (eb_input_urls einps) \<longrightarrow> isl (construct_EvidenceBasedResponse einps))"
proof (intro conjI impI)
  assume "fst (construct_ReferencedParagraphs any_url env hist inps) = Inr r"
  from construct_ReferencedParagraphs_Inr [OF this]
  show "distinct (rp_urls (rps_paragraphs r))" by simp
next
  assume "\<not> distinct (rp_input_urls inps)"
  then show "isl (fst (construct_ReferencedParagraphs any_url env hist inps))"
    by (rule construct_ReferencedParagraphs_duplicate)
next
  assume "construct_EvidenceBasedResponse einps = Inr er"
  then show "distinct (eb_urls (ebs_paragraphs er))"
    by (simp add: construct_EvidenceBasedResponse_Inr eb_urls_of_input)
next
  assume d: "\<not> distinct (eb_input_urls einps)"
  show "isl (construct_EvidenceBasedResponse einps)"
  proof (cases "construct_EvidenceBasedResponse einps")
    case (Inl es)
    then show ?thesis by simp
  next
    case (Inr x)
    with d show ?thesis by (simp add: construct_EvidenceBasedResponse_Inr)
  qed
qed

theorem reference_urls_unique_witness:
  "fst (construct_ReferencedParagraphs Some (always (Response 200)) []
          [(''one'', Some [(None, ''http://a.example/'')]), (''two'', Some [(None, ''http://b.example/'')])])
     = Inr \<lparr>rps_paragraphs =
              [\<lparr>rp_text = ''one'', rp_references = [\<lparr>ref_title = None, ref_url = ''http://a.example/''\<rparr>]\<rparr>,
               \<lparr>rp_text = ''two'', rp_references = [\<lparr>ref_title = None, ref_url = ''http://b.example/''\<rparr>]\<rparr>]\<rparr> \<and>
   distinct (rp_urls
              [\<lparr>rp_text = ''one'', rp_references = [\<lparr>ref_title = None, ref_url = ''http://a.example/''\<rparr>]\<rparr>,
               \<lparr>rp_text = ''two'', rp_references = [\<lparr>ref_title = None, ref_url = ''http://b.example/''\<rparr>]\<rparr>]) \<and>
   \<not> distinct (rp_input_urls
          [(''one'', Some [(None, ''http://a.example/'')]), (''two'', Some [(None, ''http://a.example/'')])]) \<and>
   isl (fst (construct_ReferencedParagraphs Some (always (Response 200)) []
          [(''one'', Some [(None, ''http://a.example/'')]), (''two'', Some [(None, ''http://a.example/'')])])) \<and>
   construct_EvidenceBasedResponse
          [(''one'', [(''http://a.example/'', None, ''c1'')]), (''two'', [(''http://b.example/'', None, ''c2'')])]
     = Inr \<lparr>ebs_paragraphs =
              [\<lparr>ebp_text = ''one'', ebp_references =
                  [\<lparr>ebr_url = ''http://a.example/'', ebr_title = None, ebr_supporting_claim = ''c1''\<rparr>]\<rparr>,
               \<lparr>ebp_text = ''two'', ebp_references =
                  [\<lparr>ebr_url = ''http://b.example/'', ebr_title = None, ebr_supporting_claim = ''c2''\<rparr>]\<rparr>]\<rparr> \<and>
   \<not> distinct (eb_input_urls
          [(''one'', [(''http://a.example/'', None, ''c1'')]), (''two'', [(''http://a.example/'', None, ''c2'')])]) \<and>
   isl (construct_EvidenceBasedResponse
          [(''one'', [(''http://a.example/'', None, ''c1'')]), (''two'', [(''http://a.example/'', None, ''c2'')])])"
  using reference_urls_unique
    [of Some "always (Response 200)" "[]"
        "[(''one'', Some [(None, ''http://a.example/'')]), (''two'', Some [(None, ''http://a.example/'')])]"
        "\<lparr>rps_paragraphs = []\<rparr>"
        "[(''one'', [(''http://a.example/'', None, ''c1'')]), (''two'', [(''http://a.example/'', None, ''c2'')])]"
        "\<lparr>ebs_paragraphs = []\<rparr>"]
    reference_urls_unique
    [of Some "always (Response 200)" "[]"
        "[(''one'', Some [(None, ''http://a.example/'')]), (''two'', Some [(None, ''http://b.example/'')])]"
        "\<lparr>rps_paragraphs =
              [\<lparr>rp_text = ''one'', rp_references = [\<lparr>ref_title = None, ref_url = ''http://a.example/''\<rparr>]\<rparr>,
               \<lparr>rp_text = ''two'', rp_references = [\<lparr>ref_title = None, ref_url = ''http://b.example/''\<rparr>]\<rparr>]\<rparr>"
        "[(''one'', [(''http://a.example/'', None, ''c1'')]), (''two'', [(''http://b.example/'', None, ''c2'')])]"
        "\<lparr>ebs_paragraphs =
              [\<lparr>ebp_text = ''one'', ebp_references =
                  [\<lparr>ebr_url = ''http://a.example/'', ebr_title = None, ebr_supporting_claim = ''c1''\<rparr>]\<rparr>,
               \<lparr>ebp_text = ''two'', ebp_references =
                  [\<lparr>ebr_url = ''http://b.example/'', ebr_title = None, ebr_supporting_claim = ''c2''\<rparr>]\<rparr>]\<rparr>"]
  by (simp add: eval_defs)

text \<open>
  C3. Every paragraph of a constructed reference-bearing response has at least one
  reference: constructing a \<open>ReferencedParagraphs\<close> fails when a paragraph's references are
  left out or empty, and an \<open>EvidenceBasedParagraph\<close> with no references is refused for
  its minimum length of 1.
\<close>

theorem references_non_empty:
  "(fst (construct_ReferencedParagraphs any_url env hist inps) = Inr r \<longrightarrow>
      list_all (\<lambda>p. length (rp_references p) \<ge> 1) (rps_paragraphs r)) \<and>
   ((\<exists>inp \<in> set inps. snd inp = None \<or> snd inp = Some []) \<longrightarrow>
      isl (fst (construct_ReferencedParagraphs any_url env hist inps))) \<and>
   construct_EvidenceBasedParagraph (text, []) = Inl [TooShort] \<and>
   (construct_EvidenceBasedParagraph einp = Inr ep \<longrightarrow> length (ebp_references ep) \<ge> 1) \<and>
   (construct_EvidenceBasedResponse einps = Inr er \<longrightarrow>
      list_all (\<lambda>p. length (ebp_references p) \<ge> 1) (ebs_paragraphs er))"
proof (intro conjI impI)
  assume "fst (construct_ReferencedParagraphs any_url env hist inps) = Inr r"
  from construct_ReferencedParagraphs_Inr [OF this]
  have "list_all (\<lambda>p. rp_references p \<noteq> []) (rps_paragraphs r)" by simp
  then show "list_all (\<lambda>p. length (rp_references p) \<ge> 1) (rps_paragraphs r)"
    by (simp add: list_all_iff Suc_le_eq)
next
  assume "\<exists>inp \<in> set inps. snd inp = None \<or> snd inp = Some []"
  then obtain inp where "inp \<in> set inps" "get_or (snd inp) [] = []"
    by (auto simp: get_or_def)
  then show "isl (fst (construct_ReferencedParagraphs any_url env hist inps))"
    by (rule construct_ReferencedParagraphs_empty)
next
  show "construct_EvidenceBasedParagraph (text, []) = Inl [TooShort]"
    by (simp add: construct_EvidenceBasedParagraph_eq)
next
  assume "construct_EvidenceBasedParagraph einp = Inr ep"
  then show "length (ebp_references ep) \<ge> 1"
    by (auto simp: construct_EvidenceBasedParagraph_eq Suc_le_eq split: if_splits)
next
  assume "construct_EvidenceBasedResponse einps = Inr er"
  then show "list_all (\<lambda>p. length (ebp_references p) \<ge> 1) (ebs_paragraphs er)"
    by (auto simp: construct_EvidenceBasedResponse_Inr list_all_iff Suc_le_eq)
qed

theorem references_non_empty_witness:
  "fst (construct_ReferencedParagraphs Some (always (Response 200)) []
          [(''one'', Some [(None, ''http://a.example/'')])])
     = Inr \<lparr>rps_paragraphs =
              [\<lparr>rp_text = ''one'', rp_references = [\<lparr>ref_title = None, ref_url = ''http://a.example/''\<rparr>]\<rparr>]\<rparr> \<and>
   list_all (\<lambda>p. length (rp_references p) \<ge> 1)
     [\<lparr>rp_text = ''one'', rp_references = [\<lparr>ref_title = None, ref_url = ''http://a.example/''\<rparr>]\<rparr>] \<and>
   isl (fst (construct_ReferencedParagraphs Some (always (Response 200)) []
          [(''one'', Some [(None, ''http://a.example/'')]), (''two'', Some [])])) \<and>
   isl (fst (construct_ReferencedParagraphs Some (always (Response 200)) []
          [(''one'', Some [(None, ''http://a.example/'')]), (''two'', None)])) \<and>
   construct_EvidenceBasedParagraph (''one'', [(''http://a.example/'', None, ''c1'')])
     = Inr \<lparr>ebp_text = ''one'', ebp_references =
              [\<lparr>ebr_url = ''http://a.example/'', ebr_title = None, ebr_supporting_claim = ''c1''\<rparr>]\<rparr> \<and>
   construct_EvidenceBasedResponse [(''one'', [(''http://a.example/'', None, ''c1'')])]
     = Inr \<lparr>ebs_paragraphs =
              [\<lparr>ebp_text = ''one'', ebp_references =
                  [\<lparr>ebr_url = ''http://a.example/'', ebr_title = None, ebr_supporting_claim = ''c1''\<rparr>]\<rparr>]\<rparr> \<and>
   isl (construct_EvidenceBasedResponse [(''one'', [(''http://a.example/'', None, ''c1'')]), (''two'', [])])"
  using references_non_empty
    [of Some "always (Response 200)" "[]"
        "[(''one'', Some [(None, ''http://a.example/'')]), (''two'', Some [])]"
        "\<lparr>rps_paragraphs = []\<rparr>" "''one''"
        "(''one'', [(''http://a.example/'', None, ''c1'')])"
        "\<lparr>ebp_text = ''one'', ebp_references =
              [\<lparr>ebr_url = ''http://a.example/'', ebr_title = None, ebr_supporting_claim = ''c1''\<rparr>]\<rparr>"
        "[(''one'', [(''http://a.example/'', None, ''c1'')])]"
        "\<lparr>ebs_paragraphs =
              [\<lparr>ebp_text = ''one'', ebp_references =
                  [\<lparr>ebr_url = ''http://a.example/'', ebr_title = None, ebr_supporting_claim = ''c1''\<rparr>]\<rparr>]\<rparr>"]
    references_non_empty
    [of Some "always (Response 200)" "[]"
        "[(''one'', Some [(None, ''http://a.example/'')]), (''two'', None)]"
        "\<lparr>rps_paragraphs = []\<rparr>"]
  by (simp add: eval_defs)

text \<open>
  C4, as the claim states it, fails: an \<open>EvidenceBasedResponse\<close> is constructed from a url
  that the validator rejects (the network answers 404), where the same url makes the
  construction of a \<open>ReferencedParagraphs\<close> fail.
\<close>

theorem evidence_response_accepts_dead_url:
  "construct_EvidenceBasedResponse [(''p'', [(''http://gone.example/'', None, ''c'')])]
     = Inr \<lparr>ebs_paragraphs =
              [\<lparr>ebp_text = ''p'', ebp_references =
                  [\<lparr>ebr_url = ''http://gone.example/'', ebr_title = None, ebr_supporting_claim = ''c''\<rparr>]\<rparr>]\<rparr> \<and>
   validate_url_returns_200 (always (Response 404)) [] ''http://gone.example/''
     = (Inl (returned_status ''http://gone.example/'' 404),
        [head_request ''http://gone.example/'', get_request ''http://gone.example/'']) \<and>
   isl (fst (construct_ReferencedParagraphs Some (always (Response 404)) []
          [(''p'', Some [(None, ''http://gone.example/'')])]))"
  by (simp add: eval_defs)

text \<open>
  C4, amended. The urls of an \<open>EvidenceBasedResponse\<close> are plain strings that no
  reachability check sees: the response is constructed exactly when every paragraph has a
  reference and no url repeats, whatever the network. Only a \<open>ReferencedParagraphs\<close> is
  constructed only if the validator accepted every one of its urls.
\<close>

theorem evidence_response_validity:
  "(\<exists>r. construct_EvidenceBasedResponse einps = Inr r)
     = (list_all (\<lambda>inp. snd inp \<noteq> []) einps \<and> distinct (eb_input_urls einps)) \<and>
   (fst (construct_ReferencedParagraphs any_url env hist inps) = Inr r \<longrightarrow>
      list_all (\<lambda>u. \<exists>h. fst (validate_url_returns_200 env h u) = Inr u) (rp_urls (rps_paragraphs r)))"
proof (intro conjI impI)
  show "(\<exists>r. construct_EvidenceBasedResponse einps = Inr r)
     = (list_all (\<lambda>inp. snd inp \<noteq> []) einps \<and> distinct (eb_input_urls einps))"
    by (simp add: construct_EvidenceBasedResponse_Inr)
next
  assume "fst (construct_ReferencedParagraphs any_url env hist inps) = Inr r"
  from construct_ReferencedParagraphs_Inr [OF this]
  show "list_all (\<lambda>u. \<exists>h. fst (validate_url_returns_200 env h u) = Inr u) (rp_urls (rps_paragraphs r))"
    by simp
qed

theorem evidence_response_validity_witness:
  "(\<exists>r. construct_EvidenceBasedResponse [(''p'', [(''http://gone.example/'', None, ''c'')])] = Inr r) \<and>
   fst (construct_ReferencedParagraphs Some (always (Response 200)) []
          [(''one'', Some [(None, ''http://a.example/'')])])
     = Inr \<lparr>rps_paragraphs =
              [\<lparr>rp_text = ''one'', rp_references = [\<lparr>ref_title = None, ref_url = ''http://a.example/''\<rparr>]\<rparr>]\<rparr> \<and>
   list_all (\<lambda>u. \<exists>h. fst (validate_url_returns_200 (always (Response 200)) h u) = Inr u)
     (rp_urls [\<lparr>rp_text = ''one'', rp_references = [\<lparr>ref_title = None, ref_url = ''http://a.example/''\<rparr>]\<rparr>])"
  using evidence_response_validity
    [of "[(''p'', [(''http://gone.example/'', None, ''c'')])]" Some "always (Response 200)" "[]"
        "[(''one'', Some [(None, ''http://a.example/'')])]"
        "\<lparr>rps_paragraphs =
              [\<lparr>rp_text = ''one'', rp_references = [\<lparr>ref_title = None, ref_url = ''http://a.example/''\<rparr>]\<rparr>]\<rparr>"]
  by (simp add: eval_defs)

text \<open>
  C8, as the claim states it, fails for the evidence-based response: with a valid first
  paragraph and a second one whose url the validator rejects (status 500), the response
  is constructed, with both paragraphs.
\<close>

theorem evidence_response_keeps_unreachable_paragraph:
  "construct_EvidenceBasedResponse
     [(''first'', [(''http://up.example/'', None, ''c1'')]),
      (''second'', [(''http://down.example/'', None, ''c2'')])]
     = Inr \<lparr>ebs_paragraphs =
              [\<lparr>ebp_text = ''first'', ebp_references =
                  [\<lparr>ebr_url = ''http://up.example/'', ebr_title = None, ebr_supporting_claim = ''c1''\<rparr>]\<rparr>,
               \<lparr>ebp_text = ''second'', ebp_references =
                  [\<lparr>ebr_url = ''http://down.example/'', ebr_title = None, ebr_supporting_claim = ''c2''\<rparr>]\<rparr>]\<rparr> \<and>
   fst (validate_url_returns_200 (down_for ''http://down.example/'') [] ''http://up.example/'')
     = Inr ''http://up.example/'' \<and>
   fst (validate_url_returns_200 (down_for ''http://down.example/'') [] ''http://down.example/'')
     = Inl (returned_status ''http://down.example/'' 500)"
  by (simp add: eval_defs)

text \<open>
  C8, amended. Constructing a \<open>ReferencedParagraphs\<close> in which a paragraph cites an
  unreachable url (one the validator rejects whatever was requested before), has no
  references, or repeats a url fails with a validation error; constructing an
  \<open>EvidenceBasedResponse\<close> in which a paragraph has no references or repeats a url fails
  with a validation error. The result of a failure is the error alone: no response and no
  paragraph comes with it.
\<close>

theorem atomic_rejection:
  "((\<exists>u \<in> set (rp_input_urls inps). \<exists>v. any_url u = Some v \<and>
        (\<forall>h. isl (fst (validate_url_returns_200 env h v)))) \<or>
    (\<exists>inp \<in> set inps. snd inp = None \<or> snd inp = Some []) \<or>
    \<not> distinct (rp_input_urls inps)
    \<longrightarrow> (\<exists>es. fst (construct_ReferencedParagraphs any_url env hist inps) = Inl es)) \<and>
   ((\<exists>inp \<in> set einps. snd inp = []) \<or> \<not> distinct (eb_input_urls einps)
    \<longrightarrow> (\<exists>es. construct_EvidenceBasedResponse einps = Inl es))"
proof (intro conjI impI)
  assume "(\<exists>u \<in> set (rp_input_urls inps). \<exists>v. any_url u = Some v \<and>
        (\<forall>h. isl (fst (validate_url_returns_200 env h v)))) \<or>
    (\<exists>inp \<in> set inps. snd inp = None \<or> snd inp = Some []) \<or>
    \<not> distinct (rp_input_urls inps)"
  then consider
      (unreachable) u v where "u \<in> set (rp_input_urls inps)" "any_url u = Some v"
        "\<forall>h. isl (fst (validate_url_returns_200 env h v))"
    | (empty) inp where "inp \<in> set inps" "snd inp = None \<or> snd inp = Some []"
    | (duplicate) "\<not> distinct (rp_input_urls inps)"
    by blast
  then have "isl (fst (construct_ReferencedParagraphs any_url env hist inps))"
  proof cases
    case unreachable
    from unreachable(1) obtain inp refs ref
      where r: "inp \<in> set inps" "snd inp = Some refs" "ref \<in> set refs" "snd ref = u"
      by (rule rp_input_urls_elem)
    have "\<forall>h. isl (fst (construct_Reference any_url env h ref))"
      using construct_Reference_unreachable [of any_url ref v env] unreachable(2,3) r(4) by simp
    then show ?thesis by (rule construct_ReferencedParagraphs_bad [OF r(1,2,3)])
  next
    case empty
    then have "inp \<in> set inps" "get_or (snd inp) [] = []" by (auto simp: get_or_def)
    then show ?thesis by (rule construct_ReferencedParagraphs_empty)
  next
    case duplicate
    then show ?thesis by (rule construct_ReferencedParagraphs_duplicate)
  qed
  then show "\<exists>es. fst (construct_ReferencedParagraphs any_url env hist inps) = Inl es"
    by (cases "fst (construct_ReferencedParagraphs any_url env hist inps)") auto
next
  assume a: "(\<exists>inp \<in> set einps. snd inp = []) \<or> \<not> distinct (eb_input_urls einps)"
  show "\<exists>es. construct_EvidenceBasedResponse einps = Inl es"
  proof (cases "construct_EvidenceBasedResponse einps")
    case (Inl es)
    then show ?thesis by simp
  next
    case (Inr r)
    then have "list_all (\<lambda>inp. snd inp \<noteq> []) einps" "distinct (eb_input_urls einps)"
      by (simp_all add: construct_EvidenceBasedResponse_Inr)
    with a show ?thesis by (auto simp: list_all_iff)
  qed
qed

theorem atomic_rejection_witness:
  "(\<forall>h. isl (fst (validate_url_returns_200 (down_for ''http://down.example/'') h ''http://down.example/''))) \<and>
   ''http://down.example/'' \<in> set (rp_input_urls
      [(''first'', Some [(None, ''http://up.example/'')]), (''second'', Some [(None, ''http://down.example/'')])]) \<and>
   (\<exists>es. fst (construct_ReferencedParagraphs Some (down_for ''http://down.example/'') []
      [(''first'', Some [(None, ''http://up.example/'')]), (''second'', Some [(None, ''http://down.example/'')])])
      = Inl es) \<and>
   fst (construct_ReferencedParagraphs Some (down_for ''http://down.example/'') []
      [(''first'', Some [(None, ''http://up.example/'')])])
     = Inr \<lparr>rps_paragraphs =
              [\<lparr>rp_text = ''first'', rp_references = [\<lparr>ref_title = None, ref_url = ''http://up.example/''\<rparr>]\<rparr>]\<rparr> \<and>
   (\<exists>es. construct_EvidenceBasedResponse
      [(''first'', [(''http://up.example/'', None, ''c1'')]), (''second'', [])] = Inl es) \<and>
   (\<exists>es. construct_EvidenceBasedResponse
      [(''first'', [(''http://up.example/'', None, ''c1'')]), (''second'', [(''http://up.example/'', None, ''c2'')])]
      = Inl es)"
proof -
  have dead: "\<forall>h. isl (fst (validate_url_returns_200 (down_for ''http://down.example/'') h ''http://down.example/''))"
    by (simp add: eval_defs)
  have mem: "''http://down.example/'' \<in> set (rp_input_urls
      [(''first'', Some [(None, ''http://up.example/'')]), (''second'', Some [(None, ''http://down.example/'')])])"
    by (simp add: eval_defs)
  have ok: "fst (construct_ReferencedParagraphs Some (down_for ''http://down.example/'') []
      [(''first'', Some [(None, ''http://up.example/'')])])
     = Inr \<lparr>rps_paragraphs =
              [\<lparr>rp_text = ''first'', rp_references = [\<lparr>ref_title = None, ref_url = ''http://up.example/''\<rparr>]\<rparr>]\<rparr>"
    by (simp add: eval_defs)
  have e1: "\<exists>inp \<in> set [(''first'', [(''http://up.example/'', None, ''c1'')]), (''second'', [])]. snd inp = []"
    by simp
  have e2: "\<not> distinct (eb_input_urls
      [(''first'', [(''http://up.example/'', None, ''c1'')]), (''second'', [(''http://up.example/'', None, ''c2'')])])"
    by (simp add: eval_defs)
  show ?thesis
    using dead mem ok e1 e2
      atomic_rejection [of
        "[(''first'', Some [(None, ''http://up.example/'')]), (''second'', Some [(None, ''http://down.example/'')])]"
        Some "down_for ''http://down.example/''" "[]"
        "[(''first'', [(''http://up.example/'', None, ''c1'')]), (''second'', [])]"]
      atomic_rejection [of "[]" Some "down_for ''http://down.example/''" "[]"
        "[(''first'', [(''http://up.example/'', None, ''c1'')]), (''second'', [(''http://up.example/'', None, ''c2'')])]"]
    by blast
qed

text \<open>
  C9. A \<open>ReferencedParagraph\<close> on its own is constructed for every text with its
  references left out (the default, the empty list) or empty, and without a request; it is
  the \<open>ReferencedParagraphs\<close> around such a paragraph whose construction fails.
\<close>

theorem standalone_paragraph_without_references:
  "construct_ReferencedParagraph any_url env hist (text, None)
     = (Inr \<lparr>rp_text = text, rp_references = []\<rparr>, hist) \<and>
   construct_ReferencedParagraph any_url env hist (text, Some [])
     = (Inr \<lparr>rp_text = text, rp_references = []\<rparr>, hist) \<and>
   construct_ReferencedParagraphs any_url env hist [(text, None)]
     = (Inl [Raised (ValueError ''paragraphs.0.references must not be empty'' None)], hist) \<and>
   construct_ReferencedParagraphs any_url env hist [(text, Some [])]
     = (Inl [Raised (ValueError ''paragraphs.0.references must not be empty'' None)], hist)"
  by (simp add: construct_ReferencedParagraph_def construct_ReferencedParagraphs_def gather_def
      rp_ensure_unique_urls_across_paragraphs_def str_nat_0)

text \<open>
  C10. An \<open>EvidenceBasedReference\<close> is constructed for every string as its url. A
  \<open>Reference\<close> whose url does not parse as \<open>AnyUrl\<close> is refused before any request is
  issued, and a constructed \<open>Reference\<close> holds a url that parsed.
\<close>

theorem evidence_reference_url_unvalidated:
  "construct_EvidenceBasedReference (url, title, claim)
     = Inr \<lparr>ebr_url = url, ebr_title = title, ebr_supporting_claim = claim\<rparr> \<and>
   (any_url url = None \<longrightarrow>
      construct_Reference any_url env hist (title, url) = (Inl [UrlParsing url], hist)) \<and>
   (fst (construct_Reference any_url env hist (title, url)) = Inr r \<longrightarrow>
      any_url url = Some (ref_url r))"
proof (intro conjI impI)
  show "construct_EvidenceBasedReference (url, title, claim)
     = Inr \<lparr>ebr_url = url, ebr_title = title, ebr_supporting_claim = claim\<rparr>"
    by (simp add: construct_EvidenceBasedReference_def)
next
  assume "any_url url = None"
  then show "construct_Reference any_url env hist (title, url) = (Inl [UrlParsing url], hist)"
    by (simp add: construct_Reference_def)
next
  assume "fst (construct_Reference any_url env hist (title, url)) = Inr r"
  from construct_Reference_Inr [OF this] show "any_url url = Some (ref_url r)" by simp
qed

theorem evidence_reference_url_unvalidated_witness:
  "construct_EvidenceBasedReference (''not a url'', None, ''claim'')
     = Inr \<lparr>ebr_url = ''not a url'', ebr_title = None, ebr_supporting_claim = ''claim''\<rparr> \<and>
   construct_Reference (\<lambda>s. if s = ''not a url'' then None else Some s) (always (Response 200)) []
       (None, ''not a url'') = (Inl [UrlParsing ''not a url''], []) \<and>
   fst (construct_Reference (\<lambda>s. if s = ''not a url'' then None else Some s) (always (Response 200)) []
       (None, ''http://a.example/'')) = Inr \<lparr>ref_title = None, ref_url = ''http://a.example/''\<rparr>"
  using evidence_reference_url_unvalidated
    [of "''not a url''" None "''claim''" "\<lambda>s. if s = ''not a url'' then None else Some s"
        "always (Response 200)" "[]" "\<lparr>ref_title = None, ref_url = ''http://a.example/''\<rparr>"]
    evidence_reference_url_unvalidated
    [of "''http://a.example/''" None "''claim''" "\<lambda>s. if s = ''not a url'' then None else Some s"
        "always (Response 200)" "[]" "\<lparr>ref_title = None, ref_url = ''http://a.example/''\<rparr>"]
  by (simp add: eval_defs)

section \<open>The Evidence Gatherer\<close>

text \<open>
  Whenever \<open>gather_evidence\<close> goes on to search and returns evidence, the query it
  records is the beginning of the query that was sent, never the whole of it.
\<close>

lemma gather_evidence_records_a_shorter_query:
  assumes "key \<noteq> []"
    and "fst (gather_evidence tavily client evs motion side (Some key) model) = Inr g"
  shows "length (query_used g) < length (search_query motion side)"
  using assms
  by (auto simp: gather_evidence_def search_query_def Let_def
      split: prod.splits sum.splits if_splits)

text \<open>
  C5. Without a search credential (\<open>None\<close> or the empty string) \<open>gather_evidence\<close>
  returns the evidence with the empty query and no sources, having printed one line and
  made no network call; a call of \<open>search_web_for_evidence\<close>, or of
  \<open>summarize_sources\<close> on results, would each have made one.
\<close>

theorem gather_evidence_without_credential:
  "gather_evidence tavily client evs motion side None model
     = (Inr \<lparr>query_used = '''', sources = []\<rparr>,
        evs @ [Print ''[evidence] No TAVILY_API_KEY set - skipping web search'']) \<and>
   gather_evidence tavily client evs motion side (Some '''') model
     = (Inr \<lparr>query_used = '''', sources = []\<rparr>,
        evs @ [Print ''[evidence] No TAVILY_API_KEY set - skipping web search'']) \<and>
   filter is_network_call (snd (gather_evidence tavily client evs motion side None model))
     = filter is_network_call evs \<and>
   filter is_network_call (snd (gather_evidence tavily client evs motion side (Some '''') model))
     = filter is_network_call evs \<and>
   length (filter is_network_call (snd (search_web_for_evidence tavily evs motion side key n)))
     = Suc (length (filter is_network_call evs)) \<and>
   length (filter is_network_call (snd (summarize_sources client evs (x # xs) motion side model)))
     = Suc (length (filter is_network_call evs))"
  by (auto simp: gather_evidence_def is_network_call_def search_web_for_evidence_def
      summarize_sources_def Let_def split: sum.splits)

text \<open>
  C6. With a credential and a search that finds nothing, for the motion X and the side
  pro: \<open>query_used\<close> is "arguments supporting: X", while the query
  \<open>search_web_for_evidence\<close> built and sent is
  "arguments supporting: X evidence research studies".
\<close>

theorem gather_evidence_query_used_is_not_the_query_sent:
  "gather_evidence no_results no_summaries [] ''X'' ''pro'' (Some ''key'') ''m''
     = (Inr \<lparr>query_used = ''arguments supporting: X'', sources = []\<rparr>,
        [Print ''[evidence] Searching: arguments supporting: X evidence research studies...'',
         Search \<lparr>sq_api_key = ''key'', sq_query = ''arguments supporting: X evidence research studies'',
                 sq_search_depth = ''advanced'', sq_max_results = 8, sq_include_raw_content = False,
                 sq_include_domains = include_domains\<rparr>,
         Print ''[evidence] Found 0 sources'',
         Print ''[evidence] No search results found'']) \<and>
   search_query ''X'' ''pro'' = ''arguments supporting: X evidence research studies'' \<and>
   ''arguments supporting: X'' \<noteq> search_query ''X'' ''pro''"
  by (simp add: gather_evidence_def search_web_for_evidence_def search_query_def no_results_def
      get_or_def Let_def str_nat_0)

text \<open>
  C7. \<open>summarize_sources\<close> on no search results returns no summaries and leaves the
  events as they were: no completion call is made.
\<close>

theorem summarize_sources_empty:
  "summarize_sources client evs [] motion side model = (Inr [], evs)"
  by (simp add: summarize_sources_def)

end
